theory Spec2Isabelle
  imports Complex_Main "HOL-Library.AList"
begin

section \<open>Numbers, points and errors\<close>

text \<open>
  The script works on JavaScript numbers, the doubles. They are modelled by the reals:
  every operation is the source's, in the source's order, but its result is neither
  rounded nor does it overflow or underflow. So the value this theory computes for an
  expression may differ from the double the script computes. Where a theorem of a claim
  speaks of computed values, it is one of three kinds, each of which holds for the
  rounded operations as well: an equation between the same operations in the same
  order; a statement on the sign of a product or quotient, or on a distance being zero,
  which rounding keeps; or a statement on errors, lengths and indices. None rests on a
  law of exact arithmetic such as associativity, nor on a product staying positive or
  finite. A colour point is the array \<open>[r,g,b]\<close> of \<open>script.js\<close>, a triple here.

  \<open>TypeError\<close> is what the engine throws on reading a property of \<open>undefined\<close>
  (an array read out of range followed by \<open>[0]\<close> or \<open>.slice()\<close>), \<open>RangeError\<close>
  what \<open>new Array(k)\<close> throws for a negative length. \<open>InvalidArgument\<close> is the error
  the specification names; it is part of the type so that statements can speak of it.
\<close>

type_synonym point = "real \<times> real \<times> real"

datatype error = InvalidArgument | TypeError | RangeError

fun dist2 :: "point \<Rightarrow> point \<Rightarrow> real" where
  "dist2 (a0, a1, a2) (b0, b1, b2) =
     (let dx = a0 - b0; dy = a1 - b1; dz = a2 - b2 in dx * dx + dy * dy + dz * dz)"

section \<open>k-means\<close>

subsection \<open>Initialisation\<close>

text \<open>
  \<open>rng = () => Math.floor(Math.random() * n)\<close>. The values \<open>Math.random()\<close> returns are
  an input of the model: the list \<open>ds\<close> of the draws still to come.
\<close>

definition rng :: "nat \<Rightarrow> real \<Rightarrow> nat" where
  "rng n r = nat \<lfloor>r * real n\<rfloor>"

text \<open>
  \<open>while(C.length<k){ const i=rng(); if(used.has(i)) continue; used.add(i);
  C.push(X[i].slice()); }\<close>
  The loop has no bound of its own: the result is \<open>None\<close> when the draws supplied run
  out before it ends. \<open>X[i]\<close> out of range is \<open>undefined\<close>, and \<open>.slice()\<close> on it throws.
\<close>

fun init_loop :: "real list \<Rightarrow> point list \<Rightarrow> int \<Rightarrow> nat set \<Rightarrow> point list
    \<Rightarrow> (error + point list) option" where
  "init_loop [] X k used C = (if int (length C) < k then None else Some (Inr C))"
| "init_loop (r # ds) X k used C =
     (if int (length C) < k then
        (let i = rng (length X) r in
         if i \<in> used then init_loop ds X k used C
         else if i < length X then init_loop ds X k (insert i used) (C @ [X ! i])
         else Some (Inl TypeError))
      else Some (Inr C))"

subsection \<open>Assignment\<close>

text \<open>
  \<open>for(let j=1;j<k;j++){ const d=dist2(x,C[j]); if(d<bestd){ bestd=d; best=j; } }\<close>
  with the bound \<open>k\<close> of \<open>kmeans\<close> or \<open>centroids.length\<close> of \<open>applySegmentation\<close>.
\<close>

function scan :: "point \<Rightarrow> point list \<Rightarrow> nat \<Rightarrow> nat \<Rightarrow> nat \<Rightarrow> real \<Rightarrow> error + nat" where
  "scan x C bound j best bestd =
     (if j < bound then
        (if j < length C then
           (let d = dist2 x (C ! j) in
            if d < bestd then scan x C bound (Suc j) j d
            else scan x C bound (Suc j) best bestd)
         else Inl TypeError)
      else Inr best)"
  by pat_completeness auto
termination
  by (relation "measure (\<lambda>(x, C, bound, j, best, bestd). bound - j)") auto

declare scan.simps [simp del]

text \<open>\<open>let best=0, bestd=dist2(x, C[0]);\<close> followed by the loop.\<close>

definition nearest :: "point \<Rightarrow> point list \<Rightarrow> nat \<Rightarrow> error + nat" where
  "nearest x C bound =
     (case C of [] \<Rightarrow> Inl TypeError | c0 # _ \<Rightarrow> scan x C bound 1 0 (dist2 x c0))"

text \<open>
  The assignment loop over \<open>i < n\<close>, on the points and their labels side by side
  (\<open>labels\<close> is created with \<open>n\<close> entries). It returns the new labels and \<open>changed\<close>.
  A label that is missing would be \<open>undefined\<close>, which differs from every \<open>best\<close>.
\<close>

fun assign :: "point list \<Rightarrow> nat list \<Rightarrow> point list \<Rightarrow> nat \<Rightarrow> error + (nat list \<times> bool)" where
  "assign [] ls C bound = Inr (ls, False)"
| "assign (x # xs) ls C bound =
     (case nearest x C bound of
        Inl e \<Rightarrow> Inl e
      | Inr best \<Rightarrow>
          (case assign xs (tl ls) C bound of
             Inl e \<Rightarrow> Inl e
           | Inr (ls', changed) \<Rightarrow>
               Inr (best # ls',
                 (case ls of [] \<Rightarrow> True | l # _ \<Rightarrow> if l = best then changed else True))))"

subsection \<open>Update\<close>

definition padd :: "point \<Rightarrow> point \<Rightarrow> point" where
  "padd s x = (case s of (s0, s1, s2) \<Rightarrow> case x of (x0, x1, x2) \<Rightarrow> (s0 + x0, s1 + x1, s2 + x2))"

definition pdiv :: "point \<Rightarrow> nat \<Rightarrow> point" where
  "pdiv s c = (case s of (s0, s1, s2) \<Rightarrow> (s0 / real c, s1 / real c, s2 / real c))"

text \<open>
  \<open>for(let i=0;i<n;i++){ const l=labels[i]; const x=X[i]; sums[l][0]+=x[0]; ...; counts[l]++; }\<close>
  \<open>sums[l]\<close> out of range is \<open>undefined\<close>, and \<open>sums[l][0]\<close> throws.
\<close>

fun accumulate :: "point list \<Rightarrow> nat list \<Rightarrow> point list \<Rightarrow> nat list
    \<Rightarrow> error + (point list \<times> nat list)" where
  "accumulate (x # xs) (l # ls) sums' counts =
     (if l < length sums' then
        accumulate xs ls (sums'[l := padd (sums' ! l) x]) (counts[l := Suc (counts ! l)])
      else Inl TypeError)"
| "accumulate (x # xs) [] sums' counts = Inl TypeError"
| "accumulate [] ls sums' counts = Inr (sums', counts)"

text \<open>
  \<open>for(let j=0;j<k;j++){ if(counts[j]===0) continue; C[j][0]=sums[j][0]/counts[j]; ... }\<close>
  over \<open>C\<close> and the two arrays of length \<open>k\<close> side by side. Where \<open>C\<close> has no entry
  \<open>j\<close>, \<open>C[j]\<close> is \<open>undefined\<close> and the store into \<open>C[j][0]\<close> throws.
\<close>

fun recompute :: "point list \<Rightarrow> point list \<Rightarrow> nat list \<Rightarrow> error + point list" where
  "recompute (c # C) (s # sums') (n # counts) =
     (case recompute C sums' counts of
        Inl e \<Rightarrow> Inl e
      | Inr C' \<Rightarrow> Inr ((if n = 0 then c else pdiv s n) # C'))"
| "recompute [] (s # sums') (n # counts) =
     (if n = 0 then recompute [] sums' counts else Inl TypeError)"
| "recompute C sums' counts = Inr C"

text \<open>
  \<open>const sums = Array.from({length:k}, ()=>[0,0,0]); const counts = new Array(k).fill(0);\<close>
  \<open>Array.from\<close> takes a negative length as 0, \<open>new Array\<close> throws on it.
\<close>

definition update :: "point list \<Rightarrow> nat list \<Rightarrow> point list \<Rightarrow> int \<Rightarrow> error + point list" where
  "update X labels C k =
     (if k < 0 then Inl RangeError
      else (case accumulate X labels (replicate (nat k) (0, 0, 0)) (replicate (nat k) 0) of
              Inl e \<Rightarrow> Inl e
            | Inr (sums', counts) \<Rightarrow> recompute C sums' counts))"

subsection \<open>The iteration and \<open>kmeans\<close>\<close>

text \<open>
  The state the loop leaves: the centroids, the labels, and whether the loop was left by
  \<open>if(!changed) break;\<close>.
\<close>

record run =
  cents :: "point list"
  labs :: "nat list"
  broke :: bool

fun iterate :: "nat \<Rightarrow> point list \<Rightarrow> int \<Rightarrow> point list \<Rightarrow> nat list \<Rightarrow> error + run" where
  "iterate 0 X k C labels = Inr \<lparr>cents = C, labs = labels, broke = False\<rparr>"
| "iterate (Suc m) X k C labels =
     (case assign X labels C (nat k) of
        Inl e \<Rightarrow> Inl e
      | Inr (labels', changed) \<Rightarrow>
          (case update X labels' C k of
             Inl e \<Rightarrow> Inl e
           | Inr C' \<Rightarrow>
               if \<not> changed then Inr \<lparr>cents = C', labs = labels', broke = True\<rparr>
               else iterate m X k C' labels'))"

definition kmeans_run :: "real list \<Rightarrow> point list \<Rightarrow> int \<Rightarrow> nat \<Rightarrow> (error + run) option" where
  "kmeans_run ds X k maxIter =
     (case init_loop ds X k {} [] of
        None \<Rightarrow> None
      | Some (Inl e) \<Rightarrow> Some (Inl e)
      | Some (Inr C) \<Rightarrow> Some (iterate maxIter X k C (replicate (length X) 0)))"

text \<open>\<open>kmeans\<close> returns \<open>C\<close> alone.\<close>

definition kmeans :: "real list \<Rightarrow> point list \<Rightarrow> int \<Rightarrow> nat \<Rightarrow> (error + point list) option" where
  "kmeans ds X k maxIter = map_option (map_sum id cents) (kmeans_run ds X k maxIter)"

section \<open>Segmentation\<close>


text \<open>\<open>Math.round\<close>: the nearest integer, a half rounded up.\<close>

definition math_round :: "real \<Rightarrow> int" where
  "math_round v = \<lfloor>v + 1 / 2\<rfloor>"

text \<open>
  A store into \<open>out.data\<close>, a \<open>Uint8ClampedArray\<close>: an integer is clamped to 0..255.
\<close>

definition clamp_u8 :: "int \<Rightarrow> nat" where
  "clamp_u8 n = (if n < 0 then 0 else if 255 < n then 255 else nat n)"






section \<open>Camera and projection\<close>

text \<open>
  A division by zero gives \<open>Infinity\<close>, \<open>-Infinity\<close> or \<open>NaN\<close> in JavaScript, where
  HOL's \<open>x / 0\<close> is \<open>0\<close>. The three are one value here, \<open>NonFinite\<close>: a product, sum
  or difference with a non-finite operand is non-finite again.
\<close>

datatype jsnum = Finite real | NonFinite

fun jmul :: "jsnum \<Rightarrow> jsnum \<Rightarrow> jsnum" where
  "jmul (Finite a) (Finite b) = Finite (a * b)"
| "jmul _ _ = NonFinite"

fun jadd :: "jsnum \<Rightarrow> jsnum \<Rightarrow> jsnum" where
  "jadd (Finite a) (Finite b) = Finite (a + b)"
| "jadd _ _ = NonFinite"

fun jsub :: "jsnum \<Rightarrow> jsnum \<Rightarrow> jsnum" where
  "jsub (Finite a) (Finite b) = Finite (a - b)"
| "jsub _ _ = NonFinite"

definition jdiv :: "real \<Rightarrow> real \<Rightarrow> jsnum" where
  "jdiv a b = (if b = 0 then NonFinite else Finite (a / b))"

type_synonym pos = "real \<times> real"

text \<open>
  The view state \<open>rotXVal, rotYVal, zoomVal, panX, panY\<close> and the gesture state
  \<open>pointers, lastPinchDist, lastMid, lastSingle\<close> of the script. \<open>pointers\<close> is a
  \<open>Map\<close>, which keeps its keys in the order they were first set.
\<close>

record view =
  rotXVal :: real
  rotYVal :: real
  zoomVal :: jsnum
  panX :: real
  panY :: real
  pointers :: "(nat \<times> pos) list"
  lastPinchDist :: "real option"
  lastMid :: "pos option"
  lastSingle :: "pos option"

definition initial_view :: view where
  "initial_view =
     \<lparr>rotXVal = 25 * pi / 180, rotYVal = - 30 * pi / 180, zoomVal = Finite (12 / 10),
      panX = 0, panY = 0, pointers = [], lastPinchDist = None, lastMid = None,
      lastSingle = None\<rparr>"

record canvas =
  width :: nat
  height :: nat

type_synonym matrix = "point \<times> point \<times> point"

definition rotationMatrixX :: "real \<Rightarrow> matrix" where
  "rotationMatrixX a = (let ca = cos a; sa = sin a in ((1, 0, 0), (0, ca, - sa), (0, sa, ca)))"

definition rotationMatrixY :: "real \<Rightarrow> matrix" where
  "rotationMatrixY a = (let ca = cos a; sa = sin a in ((ca, 0, sa), (0, 1, 0), (- sa, 0, ca)))"

fun mulMat :: "matrix \<Rightarrow> point \<Rightarrow> point" where
  "mulMat ((m00, m01, m02), (m10, m11, m12), (m20, m21, m22)) (v0, v1, v2) =
     (m00 * v0 + m01 * v1 + m02 * v2, m10 * v0 + m11 * v1 + m12 * v2,
      m20 * v0 + m21 * v1 + m22 * v2)"

text \<open>
  What \<open>drawPlot\<close> computes for one point \<open>p\<close> (or centroid) before it paints at
  \<open>(sx, sy)\<close>.
\<close>

definition project :: "view \<Rightarrow> canvas \<Rightarrow> point \<Rightarrow> jsnum \<times> jsnum" where
  "project s cv p =
     (let cx = real (width cv) / 2 + panX s; cy = real (height cv) / 2 + panY s;
          scale = jmul (Finite (min (real (width cv)) (real (height cv)) / 2)) (zoomVal s);
          Rx = rotationMatrixX (rotXVal s); Ry = rotationMatrixY (rotYVal s);
          v = mulMat Rx p;
          v2 = mulMat Ry v;
          sx = jadd (Finite cx) (jmul (Finite (fst v2)) scale);
          sy = jsub (Finite cy) (jmul (Finite (fst (snd v2))) scale)
      in (sx, sy))"

text \<open>The positions \<open>drawPlot\<close> paints: those of the points, then those of the centroids.\<close>

definition drawPlot :: "view \<Rightarrow> canvas \<Rightarrow> point list \<Rightarrow> point list \<Rightarrow> (jsnum \<times> jsnum) list" where
  "drawPlot s cv points centroids =
     (if points = [] then [] else map (project s cv) points @ map (project s cv) centroids)"

section \<open>Pointer and wheel events\<close>

text \<open>\<open>Math.hypot(dx,dy)\<close> is the square root of \<open>dx*dx + dy*dy\<close>.\<close>

definition distance :: "pos \<Rightarrow> pos \<Rightarrow> real" where
  "distance a b = (let dx = fst a - fst b; dy = snd a - snd b in sqrt (dx * dx + dy * dy))"

definition midpoint :: "pos \<Rightarrow> pos \<Rightarrow> pos" where
  "midpoint a b = ((fst a + fst b) / 2, (snd a + snd b) / 2)"

datatype event =
    PointerDown nat real real
  | PointerMove nat real real
  | PointerUp nat
  | PointerCancel nat
  | Wheel real

text \<open>\<open>pointers.has(id)\<close>, and \<open>Array.from(pointers.values())\<close>.\<close>

definition has :: "(nat \<times> pos) list \<Rightarrow> nat \<Rightarrow> bool" where
  "has ps i = (map_of ps i \<noteq> None)"

definition vals :: "(nat \<times> pos) list \<Rightarrow> pos list" where
  "vals ps = map snd ps"

definition pointerdown :: "view \<Rightarrow> nat \<Rightarrow> real \<Rightarrow> real \<Rightarrow> view" where
  "pointerdown s i x y =
     (let s1 = s\<lparr>pointers := AList.update i (x, y) (pointers s)\<rparr> in
      if length (pointers s1) = 1 then s1\<lparr>lastSingle := Some (x, y)\<rparr>
      else if length (pointers s1) = 2 then
        (let ps = vals (pointers s1) in
         s1\<lparr>lastPinchDist := Some (distance (ps ! 0) (ps ! 1)),
            lastMid := Some (midpoint (ps ! 0) (ps ! 1))\<rparr>)
      else s1)"

definition pointermove :: "view \<Rightarrow> nat \<Rightarrow> real \<Rightarrow> real \<Rightarrow> view" where
  "pointermove s i x y =
     (if \<not> has (pointers s) i then s
      else
        (let s1 = s\<lparr>pointers := AList.update i (x, y) (pointers s)\<rparr> in
         if length (pointers s1) = 1 then
           (let p = hd (vals (pointers s1));
                s2 = (case lastSingle s1 of
                        None \<Rightarrow> s1
                      | Some l \<Rightarrow>
                          (let dx = fst p - fst l; dy = snd p - snd l in
                           s1\<lparr>rotYVal := rotYVal s1 + dx * (1 / 100),
                              rotXVal := rotXVal s1 + dy * (1 / 100)\<rparr>))
            in s2\<lparr>lastSingle := Some p\<rparr>)
         else if length (pointers s1) = 2 then
           (let ps = vals (pointers s1);
                dist = distance (ps ! 0) (ps ! 1);
                mid = midpoint (ps ! 0) (ps ! 1);
                s2 = (case lastPinchDist s1 of
                        None \<Rightarrow> s1
                      | Some l \<Rightarrow> s1\<lparr>zoomVal := jmul (zoomVal s1) (jdiv dist l)\<rparr>);
                s3 = (case lastMid s2 of
                        None \<Rightarrow> s2
                      | Some m \<Rightarrow>
                          s2\<lparr>panX := panX s2 + (fst mid - fst m),
                             panY := panY s2 + (snd mid - snd m)\<rparr>)
            in s3\<lparr>lastPinchDist := Some dist, lastMid := Some mid, lastSingle := None\<rparr>)
         else s1))"

text \<open>\<open>pointerup\<close> and \<open>pointercancel\<close> have the same body.\<close>

definition pointerup :: "view \<Rightarrow> nat \<Rightarrow> view" where
  "pointerup s i =
     s\<lparr>pointers := AList.delete i (pointers s), lastPinchDist := None, lastMid := None,
       lastSingle := None\<rparr>"

definition wheel :: "view \<Rightarrow> real \<Rightarrow> view" where
  "wheel s deltaY =
     (let delta = - deltaY in s\<lparr>zoomVal := jmul (zoomVal s) (Finite (1 + delta * (1 / 1000)))\<rparr>)"

fun step :: "view \<Rightarrow> event \<Rightarrow> view" where
  "step s (PointerDown i x y) = pointerdown s i x y"
| "step s (PointerMove i x y) = pointermove s i x y"
| "step s (PointerUp i) = pointerup s i"
| "step s (PointerCancel i) = pointerup s i"
| "step s (Wheel deltaY) = wheel s deltaY"

fun events :: "view \<Rightarrow> event list \<Rightarrow> view" where
  "events s [] = s"
| "events s (e # es) = events (step s e) es"

section \<open>Notions of the specification\<close>

text \<open>
  The nearest centroid of the specification: minimal squared distance, the lowest index
  among those at that distance.
\<close>

definition is_nearest :: "point \<Rightarrow> point list \<Rightarrow> nat \<Rightarrow> bool" where
  "is_nearest x C b =
     (b < length C \<and> (\<forall>i\<in>{0..<length C}. dist2 x (C ! b) \<le> dist2 x (C ! i))
        \<and> (\<forall>i\<in>{0..<b}. dist2 x (C ! b) < dist2 x (C ! i)))"

text \<open>
  The points a labelling assigns to the centroid \<open>j\<close>, in the order of their indices,
  and the channel-wise arithmetic mean of a list of points as a program computes it: the
  sum taken from \<open>[0,0,0]\<close> point by point in the order of the list, then one division by
  the number of points. It is written with the additions \<open>padd\<close> and the division
  \<open>pdiv\<close> of the source.
\<close>

definition assigned :: "point list \<Rightarrow> nat list \<Rightarrow> nat \<Rightarrow> point list" where
  "assigned X labels j = map fst (filter (\<lambda>xl. snd xl = j) (zip X labels))"

definition running_mean :: "point list \<Rightarrow> point" where
  "running_mean ps = pdiv (foldl padd (0, 0, 0) ps) (length ps)"




text \<open>
  A level \<open>n\<close> of the range 0..255 nearest to a number \<open>v\<close>.
\<close>

definition nearest_level :: "real \<Rightarrow> nat \<Rightarrow> bool" where
  "nearest_level v n = (n \<le> 255 \<and> (\<forall>m\<in>{0..255}. \<bar>real n - v\<bar> \<le> \<bar>real m - v\<bar>))"




text \<open>
  The projection in the words of the specification: a rotation about the horizontal
  axis, then one about the vertical axis, then the orthographic scaling about the centre
  of the viewport, the vertical axis pointing down.
\<close>

definition rotate_about_x :: "real \<Rightarrow> point \<Rightarrow> point" where
  "rotate_about_x a p =
     (case p of (x, y, z) \<Rightarrow> (x, cos a * y - sin a * z, sin a * y + cos a * z))"

definition rotate_about_y :: "real \<Rightarrow> point \<Rightarrow> point" where
  "rotate_about_y a p =
     (case p of (x, y, z) \<Rightarrow> (cos a * x + sin a * z, y, cos a * z - sin a * x))"

definition screen_position :: "view \<Rightarrow> real \<Rightarrow> canvas \<Rightarrow> point \<Rightarrow> real \<times> real" where
  "screen_position s zoom cv p =
     (let rotated = rotate_about_y (rotYVal s) (rotate_about_x (rotXVal s) p);
          scale = min (real (width cv)) (real (height cv)) / 2 * zoom
      in (real (width cv) / 2 + panX s + fst rotated * scale,
          real (height cv) / 2 + panY s - fst (snd rotated) * scale))"

text \<open>
  Conditions on events. When exactly two pointers are tracked, they are at two
  positions; an event leaves the tracked pointers so; a wheel event has a factor
  \<open>1 - deltaY/1000\<close> that is not negative.
\<close>

definition tracked_apart :: "(nat \<times> pos) list \<Rightarrow> bool" where
  "tracked_apart ps = (if length ps = 2 then vals ps ! 0 \<noteq> vals ps ! 1 else True)"

fun apart :: "view \<Rightarrow> event \<Rightarrow> bool" where
  "apart s (PointerDown i x y) = tracked_apart (AList.update i (x, y) (pointers s))"
| "apart s (PointerMove i x y) =
     (if has (pointers s) i then tracked_apart (AList.update i (x, y) (pointers s)) else True)"
| "apart s (PointerUp i) = True"
| "apart s (PointerCancel i) = True"
| "apart s (Wheel deltaY) = True"

fun all_apart :: "view \<Rightarrow> event list \<Rightarrow> bool" where
  "all_apart s [] = True"
| "all_apart s (e # es) = (apart s e \<and> all_apart (step s e) es)"

fun mild :: "event \<Rightarrow> bool" where
  "mild (Wheel deltaY) = (deltaY \<le> 1000)"
| "mild e = True"

text \<open>
  The zoom is not a negative number: it is zero, positive, or not finite. The cached
  pinch distance is \<open>null\<close> or not negative, as every value of \<open>Math.hypot\<close> is.
\<close>

definition zoom_not_negative :: "view \<Rightarrow> bool" where
  "zoom_not_negative s = (case zoomVal s of Finite z \<Rightarrow> 0 \<le> z | NonFinite \<Rightarrow> True)"

definition baseline_not_negative :: "view \<Rightarrow> bool" where
  "baseline_not_negative s = (case lastPinchDist s of None \<Rightarrow> True | Some d \<Rightarrow> 0 \<le> d)"

text \<open>
  The cached pinch distance is \<open>null\<close> or positive, as the distance of two distinct
  positions is: a division by it is a division by a number that is not zero.
\<close>

definition baseline_positive :: "view \<Rightarrow> bool" where
  "baseline_positive s = (case lastPinchDist s of None \<Rightarrow> True | Some d \<Rightarrow> 0 < d)"

section \<open>Properties of k-means\<close>

lemma is_nearest_iff:
  "is_nearest x C b \<longleftrightarrow>
     b < length C \<and> (\<forall>i<length C. dist2 x (C ! b) \<le> dist2 x (C ! i))
       \<and> (\<forall>i<b. dist2 x (C ! b) < dist2 x (C ! i))"
  by (auto simp: is_nearest_def)

lemma assigned_Nil [simp]: "assigned [] ls j = []" "assigned xs [] j = []"
  by (simp_all add: assigned_def)

lemma assigned_Cons [simp]:
  "assigned (x # xs) (l # ls) j = (if l = j then x # assigned xs ls j else assigned xs ls j)"
  by (simp add: assigned_def)

lemma accumulate_spec:
  assumes "length ls = length xs" "\<forall>l\<in>set ls. l < length S" "length N = length S"
  shows "\<exists>S' N'. accumulate xs ls S N = Inr (S', N') \<and> length S' = length S
            \<and> length N' = length S
            \<and> (\<forall>j<length S. N' ! j = N ! j + length (assigned xs ls j)
                   \<and> S' ! j = foldl padd (S ! j) (assigned xs ls j))"
  using assms
proof (induction xs ls arbitrary: S N rule: list_induct2')
  case (4 x xs l ls)
  let ?S = "S[l := padd (S ! l) x]" and ?N = "N[l := Suc (N ! l)]"
  from 4(2-) have l: "l < length S" by simp
  have "\<exists>S' N'. accumulate xs ls ?S ?N = Inr (S', N') \<and> length S' = length ?S
            \<and> length N' = length ?S
            \<and> (\<forall>j<length ?S. N' ! j = ?N ! j + length (assigned xs ls j)
                   \<and> S' ! j = foldl padd (?S ! j) (assigned xs ls j))"
    by (rule 4(1)) (use 4(2-) in auto)
  then obtain S' N' where r: "accumulate xs ls ?S ?N = Inr (S', N')"
    "length S' = length S" "length N' = length S"
    "\<forall>j<length S. N' ! j = ?N ! j + length (assigned xs ls j)
                   \<and> S' ! j = foldl padd (?S ! j) (assigned xs ls j)"
    by auto
  have "\<forall>j<length S. N' ! j = N ! j + length (assigned (x # xs) (l # ls) j)
                   \<and> S' ! j = foldl padd (S ! j) (assigned (x # xs) (l # ls) j)"
  proof (intro allI impI)
    fix j assume j: "j < length S"
    show "N' ! j = N ! j + length (assigned (x # xs) (l # ls) j)
                   \<and> S' ! j = foldl padd (S ! j) (assigned (x # xs) (l # ls) j)"
      using r(4) j l 4(4) by (cases "l = j") auto
  qed
  with r l show ?case by simp
qed simp_all

lemma recompute_spec:
  "length S = length C \<Longrightarrow> length N = length C \<Longrightarrow>
     \<exists>C'. recompute C S N = Inr C' \<and> length C' = length C
       \<and> (\<forall>j<length C. C' ! j = (if N ! j = 0 then C ! j else pdiv (S ! j) (N ! j)))"
proof (induction C S N rule: recompute.induct)
  case (1 c C s S n N)
  then show ?case by (auto simp: nth_Cons split: nat.splits)
qed simp_all

lemma recompute_error: "recompute C S N = Inl e \<Longrightarrow> e = TypeError"
  by (induction C S N arbitrary: e rule: recompute.induct) (auto split: sum.splits if_splits)

lemma update_spec:
  assumes "0 \<le> k" "length C = nat k" "length labels = length X" "\<forall>l\<in>set labels. l < nat k"
  shows "\<exists>C'. update X labels C k = Inr C' \<and> length C' = nat k
           \<and> (\<forall>j<nat k. C' ! j = (if assigned X labels j = [] then C ! j
                                    else running_mean (assigned X labels j)))"
proof -
  let ?S = "replicate (nat k) (0::real, 0::real, 0::real)" and ?N = "replicate (nat k) (0::nat)"
  have "\<exists>S' N'. accumulate X labels ?S ?N = Inr (S', N') \<and> length S' = length ?S
            \<and> length N' = length ?S
            \<and> (\<forall>j<length ?S. N' ! j = ?N ! j + length (assigned X labels j)
                   \<and> S' ! j = foldl padd (?S ! j) (assigned X labels j))"
    by (rule accumulate_spec) (use assms in auto)
  then obtain S' N' where r: "accumulate X labels ?S ?N = Inr (S', N')"
    "length S' = nat k" "length N' = nat k"
    "\<forall>j<nat k. N' ! j = length (assigned X labels j)
        \<and> S' ! j = foldl padd (0, 0, 0) (assigned X labels j)"
    by auto
  have "\<exists>C'. recompute C S' N' = Inr C' \<and> length C' = length C
     \<and> (\<forall>j<length C. C' ! j = (if N' ! j = 0 then C ! j else pdiv (S' ! j) (N' ! j)))"
    by (rule recompute_spec) (use r assms in auto)
  then show ?thesis using r assms by (auto simp: update_def running_mean_def)
qed

lemma rng_less: "0 \<le> r \<Longrightarrow> r < 1 \<Longrightarrow> 0 < n \<Longrightarrow> rng n r < n"
proof -
  assume a: "0 \<le> r" "r < 1" "0 < n"
  then have "r * real n < real n" by simp
  then have "\<lfloor>r * real n\<rfloor> < int n" by (simp add: floor_less_iff)
  moreover have "0 \<le> \<lfloor>r * real n\<rfloor>" using a by simp
  ultimately show ?thesis unfolding rng_def by linarith
qed

lemma scan_argmin:
  assumes "bound \<le> length C" "best < j" "j \<le> bound" "bestd = dist2 x (C ! best)"
    "\<forall>i<j. bestd \<le> dist2 x (C ! i)" "\<forall>i<best. bestd < dist2 x (C ! i)"
  shows "\<exists>b. scan x C bound j best bestd = Inr b \<and> b < bound
           \<and> (\<forall>i<bound. dist2 x (C ! b) \<le> dist2 x (C ! i))
           \<and> (\<forall>i<b. dist2 x (C ! b) < dist2 x (C ! i))"
  using assms
proof (induction x C bound j best bestd rule: scan.induct)
  case (1 x C bound j best bestd)
  show ?case
  proof (cases "j < bound")
    case False
    with 1(5) have "j = bound" by simp
    with 1 False show ?thesis by (simp add: scan.simps)
  next
    case True
    then have jC: "j < length C" using 1(3) by simp
    define d where "d = dist2 x (C ! j)"
    show ?thesis
    proof (cases "d < bestd")
      case lt: True
      have a: "\<forall>i<Suc j. d \<le> dist2 x (C ! i)"
        using 1(7) lt d_def by (auto simp: less_Suc_eq)
      have b: "\<forall>i<j. d < dist2 x (C ! i)"
        using 1(7) lt by auto
      have "\<exists>b. scan x C bound (Suc j) j d = Inr b \<and> b < bound
           \<and> (\<forall>i<bound. dist2 x (C ! b) \<le> dist2 x (C ! i))
           \<and> (\<forall>i<b. dist2 x (C ! b) < dist2 x (C ! i))"
        using 1(1)[OF True jC d_def lt 1(3)] True d_def a b by simp
      moreover have "scan x C bound j best bestd = scan x C bound (Suc j) j d"
        using True jC lt d_def by (subst scan.simps) simp
      ultimately show ?thesis by simp
    next
      case ge: False
      have a: "\<forall>i<Suc j. bestd \<le> dist2 x (C ! i)"
        using 1(7) ge d_def by (auto simp: less_Suc_eq)
      have "\<exists>b. scan x C bound (Suc j) best bestd = Inr b \<and> b < bound
           \<and> (\<forall>i<bound. dist2 x (C ! b) \<le> dist2 x (C ! i))
           \<and> (\<forall>i<b. dist2 x (C ! b) < dist2 x (C ! i))"
        using 1(2)[OF True jC d_def ge 1(3)] True 1(4,6,8) a by simp
      moreover have "scan x C bound j best bestd = scan x C bound (Suc j) best bestd"
        using True jC ge d_def by (subst scan.simps) simp
      ultimately show ?thesis by simp
    qed
  qed
qed

lemma nearest_argmin:
  assumes "C \<noteq> []"
  shows "\<exists>b. nearest x C (length C) = Inr b \<and> is_nearest x C b"
proof -
  obtain c0 cs where C: "C = c0 # cs" using assms by (cases C) auto
  have "\<exists>b. scan x C (length C) 1 0 (dist2 x (C ! 0)) = Inr b \<and> b < length C
           \<and> (\<forall>i<length C. dist2 x (C ! b) \<le> dist2 x (C ! i))
           \<and> (\<forall>i<b. dist2 x (C ! b) < dist2 x (C ! i))"
    by (rule scan_argmin) (use C in auto)
  then show ?thesis by (simp add: nearest_def C is_nearest_iff)
qed

lemma is_nearest_unique: "is_nearest x C a \<Longrightarrow> is_nearest x C b \<Longrightarrow> a = b"
  unfolding is_nearest_iff by (metis linorder_neqE_nat not_less)

lemma assign_spec:
  assumes "C \<noteq> []" "length ls = length X"
  shows "\<exists>ls'. assign X ls C (length C) = Inr (ls', ls' \<noteq> ls) \<and> length ls' = length X
           \<and> (\<forall>i<length X. is_nearest (X ! i) C (ls' ! i))"
  using assms(2)
proof (induction X ls rule: list_induct2')
  case (4 x xs l ls)
  obtain b where b: "nearest x C (length C) = Inr b" "is_nearest x C b"
    using nearest_argmin[OF assms(1)] by blast
  from 4 obtain ls' where r: "assign xs ls C (length C) = Inr (ls', ls' \<noteq> ls)"
    "length ls' = length xs" "\<forall>i<length xs. is_nearest (xs ! i) C (ls' ! i)"
    by auto
  have "\<forall>i<length (x # xs). is_nearest ((x # xs) ! i) C ((b # ls') ! i)"
    using b(2) r(3) by (auto simp: nth_Cons split: nat.splits)
  with b r show ?case by auto
qed simp_all

lemma assign_labels_less:
  assumes "C \<noteq> []" "length ls = length X" "assign X ls C (length C) = Inr (ls', ch)"
  shows "\<forall>l\<in>set ls'. l < length C"
proof -
  obtain ls2 where r: "assign X ls C (length C) = Inr (ls2, ls2 \<noteq> ls)"
    "length ls2 = length X" "\<forall>i<length X. is_nearest (X ! i) C (ls2 ! i)"
    using assign_spec[OF assms(1,2)] by blast
  with assms(3) have "ls2 = ls'" by simp
  with r show ?thesis by (auto simp: in_set_conv_nth is_nearest_iff)
qed

lemma scan_error: "scan x C bound j best bestd = Inl e \<Longrightarrow> e = TypeError"
proof (induction x C bound j best bestd rule: scan.induct)
  case (1 x C bound j best bestd)
  from "1.prems" show ?case
    by (subst (asm) scan.simps) (auto simp: Let_def split: if_splits intro: "1.IH")
qed

lemma nearest_error: "nearest x C bound = Inl e \<Longrightarrow> e = TypeError"
  by (auto simp: nearest_def split: list.splits dest: scan_error)

lemma assign_error: "assign X ls C bound = Inl e \<Longrightarrow> e = TypeError"
  by (induction X arbitrary: ls e) (auto split: sum.splits dest: nearest_error)

lemma accumulate_error: "accumulate xs ls S N = Inl e \<Longrightarrow> e = TypeError"
  by (induction xs ls S N rule: accumulate.induct) (auto split: if_splits)

lemma update_error: "update X labels C k = Inl e \<Longrightarrow> e \<noteq> InvalidArgument"
  by (auto simp: update_def split: if_splits sum.splits dest: accumulate_error recompute_error)

lemma iterate_error: "iterate m X k C labels \<noteq> Inl InvalidArgument"
proof (induction m arbitrary: C labels)
  case (Suc m)
  show ?case
    using Suc.IH by (auto split: sum.splits prod.splits if_splits
        dest: assign_error update_error)
qed simp

lemma init_loop_error: "init_loop ds X k used C = Some (Inl e) \<Longrightarrow> e = TypeError"
  by (induction ds arbitrary: used C) (auto simp: Let_def split: if_splits)

lemma kmeans_run_error: "kmeans_run ds X k m = Some (Inl e) \<Longrightarrow> e \<noteq> InvalidArgument"
  by (auto simp: kmeans_run_def split: option.splits sum.splits
      dest: init_loop_error simp: iterate_error)

lemma init_loop_ok:
  assumes "\<forall>r\<in>set ds. 0 \<le> r \<and> r < 1" "0 < length X" "finite used"
    "card used = length C" "int (length C) \<le> k"
    "k \<le> int (card (used \<union> rng (length X) ` set ds))"
  shows "\<exists>C'. init_loop ds X k used C = Some (Inr C') \<and> length C' = nat k"
  using assms
proof (induction ds arbitrary: used C)
  case Nil
  then show ?case by auto
next
  case (Cons r ds)
  let ?i = "rng (length X) r"
  have i: "?i < length X" using Cons.prems(1,2) by (simp add: rng_less)
  show ?case
  proof (cases "int (length C) < k")
    case False
    with Cons.prems(5) show ?thesis by auto
  next
    case lt: True
    show ?thesis
    proof (cases "?i \<in> used")
      case True
      then have "used \<union> rng (length X) ` set (r # ds) = used \<union> rng (length X) ` set ds"
        by auto
      then have "\<exists>C'. init_loop ds X k used C = Some (Inr C') \<and> length C' = nat k"
        using Cons.prems by (intro Cons.IH) auto
      with lt True show ?thesis by simp
    next
      case False
      have "used \<union> rng (length X) ` set (r # ds)
              = insert ?i used \<union> rng (length X) ` set ds"
        by auto
      then have "\<exists>C'. init_loop ds X k (insert ?i used) (C @ [X ! ?i]) = Some (Inr C')
                   \<and> length C' = nat k"
        using Cons.prems False lt by (intro Cons.IH) auto
      with lt False i show ?thesis by (simp add: Let_def)
    qed
  qed
qed

lemma iterate_ok:
  assumes "1 \<le> k" "length C = nat k" "length labels = length X"
  shows "\<exists>R. iterate m X k C labels = Inr R \<and> length (cents R) = nat k
           \<and> length (labs R) = length X"
  using assms(2,3)
proof (induction m arbitrary: C labels)
  case 0
  then show ?case by simp
next
  case (Suc m)
  have C: "C \<noteq> []" using assms(1) Suc.prems(1) by auto
  obtain ls' where a: "assign X labels C (length C) = Inr (ls', ls' \<noteq> labels)"
    "length ls' = length X"
    using assign_spec[OF C Suc.prems(2)] by blast
  have "\<forall>l\<in>set ls'. l < nat k"
    using assign_labels_less[OF C Suc.prems(2) a(1)] Suc.prems(1) by simp
  then obtain C' where u: "update X ls' C k = Inr C'" "length C' = nat k"
    using update_spec[of k C ls' X] assms(1) Suc.prems(1) a(2) by auto
  obtain R where "iterate m X k C' ls' = Inr R" "length (cents R) = nat k"
    "length (labs R) = length X"
    using Suc.IH[OF u(2) a(2)] by blast
  with a u Suc.prems(1) show ?case by auto
qed

lemma init_loop_cong:
  "map (rng (length X)) ds = map (rng (length X)) ds'
     \<Longrightarrow> init_loop ds X k used C = init_loop ds' X k used C"
proof (induction ds arbitrary: ds' used C)
  case Nil
  then show ?case by simp
next
  case (Cons r ds)
  then obtain r' ds2 where d: "ds' = r' # ds2" "rng (length X) r = rng (length X) r'"
    "map (rng (length X)) ds = map (rng (length X)) ds2"
    by (cases ds') auto
  then show ?case using Cons.IH[OF d(3)] by (simp add: Let_def)
qed

lemma init_loop_diverges:
  assumes "\<forall>r\<in>set ds. 0 \<le> r \<and> r < 1" "0 < length X" "int (length X) < k"
    "finite used" "used \<subseteq> {..<length X}" "card used = length C"
  shows "init_loop ds X k used C = None"
  using assms
proof (induction ds arbitrary: used C)
  case Nil
  have "card used \<le> card {..<length X}" by (rule card_mono) (use Nil in auto)
  with Nil show ?case by simp
next
  case (Cons r ds)
  let ?i = "rng (length X) r"
  have i: "?i < length X" using Cons.prems(1,2) by (simp add: rng_less)
  have "card used \<le> card {..<length X}" by (rule card_mono) (use Cons.prems in auto)
  then have lt: "int (length C) < k" using Cons.prems by simp
  show ?case
  proof (cases "?i \<in> used")
    case True
    have "init_loop ds X k used C = None" using Cons.prems by (intro Cons.IH) auto
    with lt True show ?thesis by simp
  next
    case False
    have "init_loop ds X k (insert ?i used) (C @ [X ! ?i]) = None"
      using Cons.prems False i by (intro Cons.IH) auto
    with lt False i show ?thesis by (simp add: Let_def)
  qed
qed

lemma kmeans_too_many_clusters:
  "\<forall>r\<in>set ds. 0 \<le> r \<and> r < 1 \<Longrightarrow> X \<noteq> [] \<Longrightarrow> int (length X) < k \<Longrightarrow> kmeans ds X k m = None"
  using init_loop_diverges[of ds X k "{}" "[]"] by (simp add: kmeans_def kmeans_run_def)

lemma kmeans_no_points:
  "1 \<le> k \<Longrightarrow> kmeans (r # ds) [] k m = Some (Inl TypeError)"
  by (simp add: kmeans_def kmeans_run_def rng_def)

text \<open>
  Claim C1, as the code has it. \<open>kmeans\<close> checks none of its arguments and never fails
  with \<open>InvalidArgument\<close>. With \<open>1 \<le> k \<le> points.length\<close> it returns \<open>k\<close>
  centroids as soon as the draws of \<open>Math.random\<close> have given \<open>k\<close> distinct indices.
\<close>

theorem kmeans_never_InvalidArgument:
  "kmeans ds X k maxIter \<noteq> Some (Inl InvalidArgument)
   \<and> (1 \<le> k \<and> k \<le> int (length X) \<and> (\<forall>r\<in>set ds. 0 \<le> r \<and> r < 1)
        \<and> k \<le> int (card (rng (length X) ` set ds))
      \<longrightarrow> (\<exists>C. kmeans ds X k maxIter = Some (Inr C) \<and> int (length C) = k))"
proof (intro conjI impI)
  show "kmeans ds X k maxIter \<noteq> Some (Inl InvalidArgument)"
  proof
    assume a: "kmeans ds X k maxIter = Some (Inl InvalidArgument)"
    have "z = Inl InvalidArgument" if "map_sum id cents z = Inl InvalidArgument" for z
      using that by (cases z) auto
    with a have "kmeans_run ds X k maxIter = Some (Inl InvalidArgument)"
      by (auto simp: kmeans_def)
    then show False using kmeans_run_error by blast
  qed
next
  assume h: "1 \<le> k \<and> k \<le> int (length X) \<and> (\<forall>r\<in>set ds. 0 \<le> r \<and> r < 1)
        \<and> k \<le> int (card (rng (length X) ` set ds))"
  then have "X \<noteq> []" by auto
  with h obtain C0 where C0: "init_loop ds X k {} [] = Some (Inr C0)" "length C0 = nat k"
    using init_loop_ok[of ds X "{}" "[]" k] by auto
  obtain R where "iterate maxIter X k C0 (replicate (length X) 0) = Inr R"
    "length (cents R) = nat k"
    using iterate_ok[of k C0 "replicate (length X) 0" X maxIter] h C0(2) by auto
  with C0 h show "\<exists>C. kmeans ds X k maxIter = Some (Inr C) \<and> int (length C) = k"
    by (simp add: kmeans_def kmeans_run_def)
qed

theorem kmeans_never_InvalidArgument_witness:
  "kmeans [0, 1 / 2] [(0, 0, 0), (1, 1, 1)] 2 10 \<noteq> Some (Inl InvalidArgument)
   \<and> (\<exists>C. kmeans [0, 1 / 2] [(0, 0, 0), (1, 1, 1)] 2 10 = Some (Inr C) \<and> int (length C) = 2)"
proof -
  have "(1::int) \<le> 2 \<and> (2::int) \<le> int (length [(0, 0, 0), (1, 1, 1)::point])
     \<and> (\<forall>r\<in>set [0, 1 / 2::real]. 0 \<le> r \<and> r < 1)
     \<and> 2 \<le> int (card (rng (length [(0, 0, 0), (1, 1, 1)::point]) ` set [0, 1 / 2]))"
    by (simp add: rng_def)
  with kmeans_never_InvalidArgument[of "[0, 1 / 2]" "[(0, 0, 0), (1, 1, 1)]" 2 10]
  show ?thesis by blast
qed

text \<open>
  Asked for 3 clusters of 2 points, the initialisation uses up every draw it is given and
  has not returned; no \<open>InvalidArgument\<close> is raised, nor for an empty point list or
  \<open>k = 0\<close>, where a \<open>TypeError\<close> is thrown.
\<close>

theorem kmeans_three_of_two_counterexample:
  "kmeans [0, 1/2, 0, 1/2, 1/4, 3/4] [(0,0,0),(1,1,1)] 3 10 = None
   \<and> kmeans [0, 1/2, 0, 1/2, 1/4, 3/4] [(0,0,0),(1,1,1)] 3 10 \<noteq> Some (Inl InvalidArgument)
   \<and> kmeans [0] [] 1 10 = Some (Inl TypeError)
   \<and> kmeans [0] [(0,0,0)] 0 10 = Some (Inl TypeError)"
  by code_simp

text \<open>
  Claim C2, as the code has it. \<open>kmeans\<close> has no seed parameter: it draws from
  \<open>Math.random\<close>. For fixed points, \<open>k\<close> and \<open>maxIter\<close>, two runs in which
  \<open>Math.floor(Math.random()*n)\<close> takes the same values one after the other end with the
  same centroids and labels.
\<close>

theorem kmeans_same_indices_same_result:
  "map (rng (length X)) ds = map (rng (length X)) ds'
     \<Longrightarrow> kmeans_run ds X k maxIter = kmeans_run ds' X k maxIter
         \<and> kmeans ds X k maxIter = kmeans ds' X k maxIter"
  using init_loop_cong[of X ds ds' k "{}" "[]"] by (simp add: kmeans_def kmeans_run_def)

theorem kmeans_same_indices_same_result_witness:
  "map (rng (length [(0,0,0),(1,1,1)::point])) [1/10] = map (rng (length [(0,0,0),(1,1,1)::point])) [2/10]
   \<and> kmeans_run [1/10] [(0,0,0),(1,1,1)] 1 3 = kmeans_run [2/10] [(0,0,0),(1,1,1)] 1 3
   \<and> kmeans [1/10] [(0,0,0),(1,1,1)] 1 3 = kmeans [2/10] [(0,0,0),(1,1,1)] 1 3"
  using kmeans_same_indices_same_result[of "[(0,0,0),(1,1,1)]" "[1/10]" "[2/10]" 1 3]
  by (simp add: rng_def)

text \<open>
  Two runs on the same points, \<open>k\<close> and \<open>maxIter\<close> whose draws differ return
  different centroids.
\<close>

theorem kmeans_random_counterexample:
  "kmeans [0] [(0,0,0),(1,1,1)] 1 0 = Some (Inr [(0,0,0)])
   \<and> kmeans [1/2] [(0,0,0),(1,1,1)] 1 0 = Some (Inr [(1,1,1)])
   \<and> kmeans [0] [(0,0,0),(1,1,1)] 1 0 \<noteq> kmeans [1/2] [(0,0,0),(1,1,1)] 1 0"
  by (simp add: kmeans_def kmeans_run_def rng_def)









text \<open>
  Claim C5 fails on the code. The points are black, black, white, \<open>k = 2\<close>, and the draws
  pick the two black points. In the first iteration every point is nearest to centroid 0,
  which is what the initial labels say, so \<open>changed\<close> stays false; the update moves
  centroid 0 to the mean of all points, and the loop breaks. Against the centroids
  returned, the assignment step relabels both black points.
\<close>

theorem kmeans_first_iteration_break_not_fixed:
  "kmeans_run [0, 2 / 5] [(0, 0, 0), (0, 0, 0), (1, 1, 1)] 2 10
     = Some (Inr \<lparr>cents = [(1 / 3, 1 / 3, 1 / 3), (0, 0, 0)], labs = [0, 0, 0], broke = True\<rparr>)
   \<and> assign [(0, 0, 0), (0, 0, 0), (1, 1, 1)] [0, 0, 0] [(1 / 3, 1 / 3, 1 / 3), (0, 0, 0)] 2
     = Inr ([1, 1, 0], True)"
  by code_simp

text \<open>
  The break does leave a fixed point of the assignment step whenever the first iteration
  has changed a label: the labels of the breaking iteration are then those of the
  iteration before, and the update, run twice on them, gives the same centroids.
\<close>

lemma update_idem:
  assumes "0 \<le> k" "length Cp = nat k" "length labels = length X"
    "\<forall>l\<in>set labels. l < nat k" "update X labels Cp k = Inr C"
  shows "update X labels C k = Inr C"
proof -
  obtain C1 where c1: "update X labels Cp k = Inr C1" "length C1 = nat k"
    "\<forall>j<nat k. C1 ! j = (if assigned X labels j = [] then Cp ! j
                            else running_mean (assigned X labels j))"
    using update_spec[OF assms(1-4)] by blast
  with assms(5) have C: "C1 = C" by simp
  obtain C2 where c2: "update X labels C k = Inr C2" "length C2 = nat k"
    "\<forall>j<nat k. C2 ! j = (if assigned X labels j = [] then C ! j
                            else running_mean (assigned X labels j))"
    using update_spec[of k C labels X] assms(1,3,4) c1(2) C by blast
  have "C2 = C"
    using c1(2,3) c2(2,3) C by (intro nth_equalityI) auto
  with c2(1) show ?thesis by simp
qed

lemma iterate_fixed_point:
  assumes "1 \<le> k" "length Cp = nat k" "length labels = length X"
    "\<forall>l\<in>set labels. l < nat k" "update X labels Cp k = Inr C"
    "iterate m X k C labels = Inr R" "broke R"
  shows "assign X (labs R) (cents R) (nat k) = Inr (labs R, False)"
  using assms(2-)
proof (induction m arbitrary: Cp C labels)
  case 0
  then show ?case by auto
next
  case (Suc m)
  have k0: "0 \<le> k" using assms(1) by simp
  have lenC: "length C = nat k"
    using update_spec[OF k0 Suc.prems(1-3)] Suc.prems(4) by auto
  then have C: "C \<noteq> []" using assms(1) by auto
  obtain ls' where a: "assign X labels C (length C) = Inr (ls', ls' \<noteq> labels)"
    "length ls' = length X"
    using assign_spec[OF C Suc.prems(2)] by blast
  have less: "\<forall>l\<in>set ls'. l < nat k"
    using assign_labels_less[OF C Suc.prems(2) a(1)] lenC by simp
  obtain C' where u: "update X ls' C k = Inr C'"
    using update_spec[OF k0 lenC a(2) less] by blast
  show ?case
  proof (cases "ls' = labels")
    case True
    then have "C' = C"
      using update_idem[OF k0 Suc.prems(1-4)] u by simp
    moreover have "R = \<lparr>cents = C', labs = ls', broke = True\<rparr>"
      using Suc.prems(5) a(1) u True lenC by simp
    ultimately show ?thesis using a(1) True lenC by simp
  next
    case False
    then have "iterate m X k C' ls' = Inr R"
      using Suc.prems(5) a(1) u lenC by simp
    then show ?thesis
      using Suc.IH[OF lenC a(2) less u _ Suc.prems(6)] by simp
  qed
qed

lemma kmeans_fixed_point_after_first_change:
  assumes "1 \<le> k" "init_loop ds X k {} [] = Some (Inr C0)" "length C0 = nat k"
    "assign X (replicate (length X) 0) C0 (nat k) = Inr (l1, True)"
    "kmeans_run ds X k maxIter = Some (Inr R)" "broke R"
  shows "assign X (labs R) (cents R) (nat k) = Inr (labs R, False)"
proof -
  obtain m where m: "maxIter = Suc m"
    using assms(2,5,6) by (cases maxIter) (auto simp: kmeans_run_def)
  have C0: "C0 \<noteq> []" using assms(1,3) by auto
  have a: "assign X (replicate (length X) 0) C0 (length C0) = Inr (l1, True)"
    using assms(3,4) by simp
  obtain ls2 where "assign X (replicate (length X) 0) C0 (length C0)
      = Inr (ls2, ls2 \<noteq> replicate (length X) 0)" "length ls2 = length X"
    using assign_spec[of C0 "replicate (length X) 0" X] C0 by auto
  with a have len: "length l1 = length X" by simp
  have less: "\<forall>l\<in>set l1. l < nat k"
    using assign_labels_less[OF C0 _ a] assms(3) by simp
  obtain C1 where u: "update X l1 C0 k = Inr C1"
    using update_spec[of k C0 l1 X] assms(1,3) len less by auto
  have "iterate m X k C1 l1 = Inr R"
    using assms(2,4,5) u m by (simp add: kmeans_run_def)
  then show ?thesis
    using iterate_fixed_point[OF assms(1,3) len less u _ assms(6)] by simp
qed

section \<open>Properties of the segmentation\<close>

text \<open>
  \<open>Math.round\<close> followed by the clamped store takes a number to a level of 0..255
  nearest to it, whatever the number. In \<open>quantize\<close> the number is the product
  \<open>c * 255\<close>.
\<close>

lemma clamp_round_nearest_level: "nearest_level v (clamp_u8 (math_round v))"
proof -
  define n where "n = \<lfloor>v + 1 / 2\<rfloor>"
  have lo: "real_of_int n \<le> v + 1 / 2" and hi: "v + 1 / 2 < real_of_int n + 1"
    unfolding n_def by linarith+
  consider "n < 0" | "255 < n" | "0 \<le> n" "n \<le> 255" by linarith
  then show ?thesis
  proof cases
    case 1
    then have q: "clamp_u8 (math_round v) = 0" by (simp add: math_round_def clamp_u8_def n_def)
    have "v < 0" using 1 hi by linarith
    then show ?thesis unfolding nearest_level_def q by auto
  next
    case 2
    then have q: "clamp_u8 (math_round v) = 255"
      by (simp add: math_round_def clamp_u8_def n_def)
    have "255 < v" using 2 lo by linarith
    then show ?thesis unfolding nearest_level_def q by auto
  next
    case 3
    then have q: "clamp_u8 (math_round v) = nat n"
      by (simp add: math_round_def clamp_u8_def n_def)
    have rn: "real (nat n) = real_of_int n" using 3 by simp
    have "\<bar>real_of_int n - v\<bar> \<le> \<bar>real m - v\<bar>" for m :: nat
    proof (cases "int m = n")
      case True
      then have "real m = real_of_int n" by (metis of_int_of_nat_eq)
      then show ?thesis by simp
    next
      case False
      then consider "int m \<le> n - 1" | "n + 1 \<le> int m" by linarith
      then show ?thesis
      proof cases
        case 1
        then have "real m \<le> real_of_int n - 1"
          by (metis of_int_of_nat_eq of_int_le_iff of_int_diff of_int_1)
        then show ?thesis using lo hi by linarith
      next
        case 2
        then have "real_of_int n + 1 \<le> real m"
          by (metis of_int_of_nat_eq of_int_le_iff of_int_add of_int_1)
        then show ?thesis using lo hi by linarith
      qed
    qed
    then show ?thesis unfolding nearest_level_def q rn using 3 by auto
  qed
qed








section \<open>Properties of the projection\<close>

text \<open>
  \<open>rotate_about_x\<close> and \<open>rotate_about_y\<close> are rotations about their axes: they fix
  the axis coordinate, keep distances, and are undone by the opposite angle. The two do
  not commute.
\<close>

lemma rotate_about_x_axis: "fst (rotate_about_x a p) = fst p"
  by (cases p) (simp add: rotate_about_x_def)

lemma rotate_about_y_axis: "fst (snd (rotate_about_y a p)) = fst (snd p)"
  by (cases p) (simp add: rotate_about_y_def)

lemma sq_rot: "(c * u - s * v) * (c * u - s * v) + (s * u + c * v) * (s * u + c * v)
    = (c * c + s * s) * (u * u + v * v)" for c s u v :: real
  by algebra

lemma cos_sin_sq: "cos a * cos a + sin a * sin a = (1::real)"
  using sin_cos_squared_add2[of a] by (simp add: power2_eq_square)

lemma rotate_about_x_isometry: "dist2 (rotate_about_x a p) (rotate_about_x a q) = dist2 p q"
proof -
  obtain x y z x' y' z' where pq: "p = (x, y, z)" "q = (x', y', z')"
    by (cases p, cases q) auto
  have "(cos a * y - sin a * z - (cos a * y' - sin a * z')) * (cos a * y - sin a * z - (cos a * y' - sin a * z'))
      + (sin a * y + cos a * z - (sin a * y' + cos a * z')) * (sin a * y + cos a * z - (sin a * y' + cos a * z'))
      = (cos a * cos a + sin a * sin a) * ((y - y') * (y - y') + (z - z') * (z - z'))"
    by algebra
  then show ?thesis by (simp add: pq rotate_about_x_def cos_sin_sq Let_def)
qed

lemma rotate_about_y_isometry: "dist2 (rotate_about_y a p) (rotate_about_y a q) = dist2 p q"
proof -
  obtain x y z x' y' z' where pq: "p = (x, y, z)" "q = (x', y', z')"
    by (cases p, cases q) auto
  have "(cos a * x + sin a * z - (cos a * x' + sin a * z')) * (cos a * x + sin a * z - (cos a * x' + sin a * z'))
      + (cos a * z - sin a * x - (cos a * z' - sin a * x')) * (cos a * z - sin a * x - (cos a * z' - sin a * x'))
      = (cos a * cos a + sin a * sin a) * ((x - x') * (x - x') + (z - z') * (z - z'))"
    by algebra
  then show ?thesis by (simp add: pq rotate_about_y_def cos_sin_sq Let_def)
qed

lemma rotate_about_x_inverse: "rotate_about_x (- a) (rotate_about_x a p) = p"
proof -
  obtain x y z where p: "p = (x, y, z)" by (cases p) auto
  have "cos a * (cos a * y - sin a * z) + sin a * (sin a * y + cos a * z)
      = (cos a * cos a + sin a * sin a) * y"
    "cos a * (sin a * y + cos a * z) - sin a * (cos a * y - sin a * z)
      = (cos a * cos a + sin a * sin a) * z"
    by algebra+
  then show ?thesis by (simp add: p rotate_about_x_def cos_sin_sq)
qed

lemma rotate_about_y_inverse: "rotate_about_y (- a) (rotate_about_y a p) = p"
proof -
  obtain x y z where p: "p = (x, y, z)" by (cases p) auto
  have "cos a * (cos a * x + sin a * z) - sin a * (cos a * z - sin a * x)
      = (cos a * cos a + sin a * sin a) * x"
    "cos a * (cos a * z - sin a * x) + sin a * (cos a * x + sin a * z)
      = (cos a * cos a + sin a * sin a) * z"
    by algebra+
  then show ?thesis by (simp add: p rotate_about_y_def cos_sin_sq)
qed

lemma rotation_order_matters:
  "rotate_about_y (pi / 2) (rotate_about_x (pi / 2) (0, 1, 0)) = (1, 0, 0)
   \<and> rotate_about_x (pi / 2) (rotate_about_y (pi / 2) (0, 1, 0)) = (0, 0, 1)"
  by (simp add: rotate_about_x_def rotate_about_y_def)

lemma mulMat_rotationMatrixX: "mulMat (rotationMatrixX a) p = rotate_about_x a p"
  by (cases p) (simp add: rotationMatrixX_def rotate_about_x_def Let_def)

lemma mulMat_rotationMatrixY: "mulMat (rotationMatrixY a) p = rotate_about_y a p"
  by (cases p) (simp add: rotationMatrixY_def rotate_about_y_def Let_def)

text \<open>
  Claim C8. For every point, view state and canvas, \<open>drawPlot\<close> paints the point at
  \<open>screen_position\<close>: the point rotated about the horizontal axis by \<open>rotXVal\<close>, then
  about the vertical axis by \<open>rotYVal\<close>, scaled by \<open>min(width, height)/2 * zoom\<close>
  about the centre of the canvas shifted by the pan, the vertical axis pointing down.
  The position depends on the point, the view state and the canvas alone.
\<close>

theorem project_rotates_x_then_y:
  "zoomVal s = Finite zoom \<Longrightarrow>
     project s cv p = (Finite (fst (screen_position s zoom cv p)),
                       Finite (snd (screen_position s zoom cv p)))"
  by (simp add: project_def screen_position_def Let_def
      mulMat_rotationMatrixX mulMat_rotationMatrixY)

theorem project_rotates_x_then_y_witness:
  "project \<lparr>rotXVal = pi / 2, rotYVal = pi / 2, zoomVal = Finite 2, panX = 3, panY = 4,
            pointers = [], lastPinchDist = None, lastMid = None, lastSingle = None\<rparr>
       \<lparr>width = 100, height = 60\<rparr> (0, 1, 0)
     = (Finite 113, Finite 34)"
proof -
  let ?s = "\<lparr>rotXVal = pi / 2, rotYVal = pi / 2, zoomVal = Finite 2, panX = 3, panY = 4,
            pointers = [], lastPinchDist = None, lastMid = None, lastSingle = None\<rparr>"
  have "zoomVal ?s = Finite 2" by simp
  from project_rotates_x_then_y[OF this, of "\<lparr>width = 100, height = 60\<rparr>" "(0, 1, 0)"]
  show ?thesis by (simp add: screen_position_def rotate_about_x_def rotate_about_y_def)
qed

section \<open>Properties of the pointer and wheel handlers\<close>

lemma distance_positive: "a \<noteq> b \<Longrightarrow> 0 < distance a b"
proof -
  assume "a \<noteq> b"
  then have "fst a - fst b \<noteq> 0 \<or> snd a - snd b \<noteq> 0" by (auto simp: prod_eq_iff)
  then have "0 < (fst a - fst b) * (fst a - fst b) + (snd a - snd b) * (snd a - snd b)"
    by (metis add.commute add_pos_nonneg mult_eq_0_iff not_real_square_gt_zero
        zero_le_square add_nonneg_pos)
  then show ?thesis by (simp add: distance_def Let_def)
qed

lemma pointerdown_zoomVal: "zoomVal (pointerdown s i x y) = zoomVal s"
  by (simp add: pointerdown_def Let_def)

lemma pointerdown_lastPinchDist:
  "lastPinchDist (pointerdown s i x y) =
     (if length (AList.update i (x, y) (pointers s)) = 2
      then Some (distance (vals (AList.update i (x, y) (pointers s)) ! 0)
                          (vals (AList.update i (x, y) (pointers s)) ! 1))
      else lastPinchDist s)"
  by (simp add: pointerdown_def Let_def)

lemma pointermove_zoomVal:
  "zoomVal (pointermove s i x y) =
     (if has (pointers s) i \<and> length (AList.update i (x, y) (pointers s)) = 2
      then (case lastPinchDist s of
              None \<Rightarrow> zoomVal s
            | Some l \<Rightarrow>
                jmul (zoomVal s)
                  (jdiv (distance (vals (AList.update i (x, y) (pointers s)) ! 0)
                                  (vals (AList.update i (x, y) (pointers s)) ! 1)) l))
      else zoomVal s)"
  by (simp add: pointermove_def Let_def split: option.splits)

lemma pointermove_lastPinchDist:
  "lastPinchDist (pointermove s i x y) =
     (if has (pointers s) i \<and> length (AList.update i (x, y) (pointers s)) = 2
      then Some (distance (vals (AList.update i (x, y) (pointers s)) ! 0)
                          (vals (AList.update i (x, y) (pointers s)) ! 1))
      else lastPinchDist s)"
  by (simp add: pointermove_def Let_def split: option.splits)

lemma step_baseline_positive:
  assumes "baseline_positive s" "apart s e"
  shows "baseline_positive (step s e)"
proof (cases e)
  case (PointerDown i x y)
  with assms show ?thesis
    by (auto simp: baseline_positive_def pointerdown_lastPinchDist tracked_apart_def
        distance_positive)
next
  case (PointerMove i x y)
  with assms show ?thesis
    by (auto simp: baseline_positive_def pointermove_lastPinchDist tracked_apart_def
        distance_positive)
qed (simp_all add: baseline_positive_def pointerup_def wheel_def Let_def assms(1)[unfolded baseline_positive_def])

lemma distance_not_negative: "0 \<le> distance a b"
  by (simp add: distance_def Let_def)

lemma step_baseline_not_negative:
  assumes "baseline_not_negative s"
  shows "baseline_not_negative (step s e)"
proof (cases e)
  case (PointerDown i x y)
  with assms show ?thesis
    by (auto simp: baseline_not_negative_def pointerdown_lastPinchDist distance_not_negative)
next
  case (PointerMove i x y)
  with assms show ?thesis
    by (auto simp: baseline_not_negative_def pointermove_lastPinchDist distance_not_negative)
qed (simp_all add: baseline_not_negative_def pointerup_def wheel_def Let_def
      assms[unfolded baseline_not_negative_def])

lemma step_zoom_not_negative:
  assumes "zoom_not_negative s" "baseline_not_negative s" "mild e"
  shows "zoom_not_negative (step s e)"
proof (cases e)
  case (PointerMove i x y)
  with assms show ?thesis
    by (auto simp: zoom_not_negative_def baseline_not_negative_def pointermove_zoomVal
        jdiv_def distance_not_negative split: jsnum.splits option.splits)
next
  case (Wheel d)
  with assms show ?thesis
    by (auto simp: zoom_not_negative_def wheel_def Let_def split: jsnum.splits)
qed (use assms in \<open>auto simp: zoom_not_negative_def pointerdown_zoomVal pointerup_def
      split: jsnum.splits\<close>)

lemma all_apart_take: "all_apart s es \<Longrightarrow> all_apart s (take n es)"
proof (induction es arbitrary: s n)
  case (Cons e es)
  then show ?case by (cases n) auto
qed simp

lemma events_baseline_positive:
  "baseline_positive s \<Longrightarrow> all_apart s es \<Longrightarrow> baseline_positive (events s es)"
proof (induction es arbitrary: s)
  case (Cons e es)
  then show ?case by (simp add: step_baseline_positive)
qed simp

lemma events_zoom_not_negative:
  "zoom_not_negative s \<Longrightarrow> baseline_not_negative s \<Longrightarrow> list_all mild es
     \<Longrightarrow> zoom_not_negative (events s es)"
proof (induction es arbitrary: s)
  case (Cons e es)
  then show ?case by (simp add: step_zoom_not_negative step_baseline_not_negative)
qed simp

text \<open>The definitions to unfold when a run of events is evaluated.\<close>

lemmas view_simps = initial_view_def pointerdown_def pointermove_def pointerup_def wheel_def
  has_def vals_def distance_def midpoint_def jdiv_def tracked_apart_def

text \<open>
  Claim C3, as the code has it. No handler clamps or guards the zoom, and it does not
  stay positive. What the handlers keep is its sign: from a state whose zoom is not
  negative (and whose cached pinch distance is \<open>null\<close> or not negative), the zoom is
  not negative after every event of a sequence in which each wheel event has
  \<open>deltaY \<le> 1000\<close>; it may be 0. Each event multiplies the zoom by a factor that is
  not negative, \<open>1 - deltaY/1000\<close> or a quotient of two distances, and a product of
  such numbers is not negative however it is rounded.
\<close>

theorem zoom_never_negative:
  assumes "zoom_not_negative s" "baseline_not_negative s" "list_all mild es"
  shows "zoom_not_negative (events s (take n es))"
proof -
  have "list_all mild (take n es)"
    using assms(3) by (auto simp: list_all_iff dest: in_set_takeD)
  then show ?thesis
    using events_zoom_not_negative[OF assms(1,2)] by simp
qed

theorem zoom_never_negative_witness:
  "zoom_not_negative (events initial_view
      (take 4 [PointerDown 1 0 0, PointerDown 2 1 0, PointerMove 2 2 0, Wheel 1000, PointerUp 1]))
   \<and> zoomVal (events initial_view
      (take 4 [PointerDown 1 0 0, PointerDown 2 1 0, PointerMove 2 2 0, Wheel 1000, PointerUp 1]))
     = Finite 0"
proof -
  let ?es = "[PointerDown 1 0 0, PointerDown 2 1 0, PointerMove 2 2 0, Wheel 1000, PointerUp 1]"
  have h: "zoom_not_negative initial_view" "baseline_not_negative initial_view"
    "list_all mild ?es"
    by (simp_all add: zoom_not_negative_def baseline_not_negative_def view_simps)
  have "zoomVal (events initial_view (take 4 ?es)) = Finite 0"
    by (simp add: view_simps)
  with zoom_never_negative[OF h, of 4] show ?thesis by blast
qed

text \<open>
  A wheel event with \<open>deltaY = 1000\<close> sets the zoom to 0, one with \<open>deltaY = 2000\<close>
  makes it negative, and a pinch that brings the two pointers together sets it to 0.
\<close>

theorem zoom_collapse_counterexample:
  "zoomVal (events initial_view [Wheel 1000]) = Finite 0
   \<and> zoomVal (events initial_view [Wheel 2000]) = Finite (- (6 / 5))
   \<and> zoomVal (events initial_view [PointerDown 1 0 0, PointerDown 2 1 0, PointerMove 2 0 0])
       = Finite 0"
  by (simp add: view_simps)

lemma length_set_pointer:
  "length (AList.update k v al) = (if k \<in> fst ` set al then length al else Suc (length al))"
  by (induction al) auto

text \<open>
  Claim C9, as the code has it. While more than two pointers are tracked, a move event
  records the position of its pointer and nothing else: rotation, zoom, pan and the
  cached distance, midpoint and position stay as they are.
\<close>

theorem pointermove_extra_pointers:
  assumes "2 < length (pointers s)"
  shows "pointermove s i x y =
           (if has (pointers s) i then s\<lparr>pointers := AList.update i (x, y) (pointers s)\<rparr> else s)"
proof (cases "has (pointers s) i")
  case True
  then have "i \<in> fst ` set (pointers s)"
    by (simp add: has_def map_of_eq_None_iff)
  then have "length (AList.update i (x, y) (pointers s)) = length (pointers s)"
    by (simp add: length_set_pointer)
  with assms True show ?thesis by (simp add: pointermove_def Let_def)
qed (simp add: pointermove_def)

theorem pointermove_extra_pointers_witness:
  "pointermove (events initial_view [PointerDown 1 0 0, PointerDown 2 1 0, PointerDown 3 5 5]) 2 2 0
     = (events initial_view [PointerDown 1 0 0, PointerDown 2 1 0, PointerDown 3 5 5])
         \<lparr>pointers := [(1, (0, 0)), (2, (2, 0)), (3, (5, 5))]\<rparr>"
proof -
  let ?s = "events initial_view [PointerDown 1 0 0, PointerDown 2 1 0, PointerDown 3 5 5]"
  have p: "pointers ?s = [(1, (0, 0)), (2, (1, 0)), (3, (5, 5))]" by (simp add: view_simps)
  then have "2 < length (pointers ?s)" by simp
  from pointermove_extra_pointers[OF this, of 2 2 0] show ?thesis
    unfolding p by (simp add: has_def)
qed

text \<open>
  Three pointers are down and the second moves away from the first: the distance of the
  first two goes from the cached 1 to 2, and zoom and pan do not change. With two
  pointers the same move doubles the zoom.
\<close>

theorem extra_pointer_suppresses_pinch_counterexample:
  "lastPinchDist (events initial_view [PointerDown 1 0 0, PointerDown 2 1 0, PointerDown 3 5 5])
     = Some 1
   \<and> vals (pointers (events initial_view
        [PointerDown 1 0 0, PointerDown 2 1 0, PointerDown 3 5 5, PointerMove 2 2 0]))
     = [(0, 0), (2, 0), (5, 5)]
   \<and> distance (0, 0) (2, 0) = 2
   \<and> zoomVal (events initial_view
        [PointerDown 1 0 0, PointerDown 2 1 0, PointerDown 3 5 5, PointerMove 2 2 0])
     = Finite (6 / 5)
   \<and> panX (events initial_view
        [PointerDown 1 0 0, PointerDown 2 1 0, PointerDown 3 5 5, PointerMove 2 2 0]) = 0
   \<and> zoomVal (events initial_view [PointerDown 1 0 0, PointerDown 2 1 0, PointerMove 2 2 0])
     = Finite (12 / 5)"
  by (simp add: view_simps)

text \<open>
  Claim C10, as the code has it. The cached distance is replaced by the current one at
  every two-pointer move, so it is not enough that the pointers are apart when the
  gesture starts. From a state with a cached distance that is \<open>null\<close> or positive, if
  each pointer-down or move leaves two tracked pointers, when there are exactly two, at
  distinct positions, then after every event the cached distance is \<open>null\<close> or
  positive: the division of the next two-pointer move is by a number that is not zero.
  Nothing is said of the size of the zoom.
\<close>

theorem pinch_division_defined:
  assumes "baseline_positive s" "all_apart s es"
  shows "baseline_positive (events s (take n es))"
  using events_baseline_positive[OF assms(1) all_apart_take[OF assms(2)]] by simp

theorem pinch_division_defined_witness:
  "baseline_positive (events initial_view
      (take 3 [PointerDown 1 0 0, PointerDown 2 1 0, PointerMove 2 2 0, Wheel 3000]))
   \<and> lastPinchDist (events initial_view
      (take 3 [PointerDown 1 0 0, PointerDown 2 1 0, PointerMove 2 2 0, Wheel 3000])) = Some 2"
proof -
  let ?es = "[PointerDown 1 0 0, PointerDown 2 1 0, PointerMove 2 2 0, Wheel 3000]"
  have h: "baseline_positive initial_view" "all_apart initial_view ?es"
    by (simp_all add: baseline_positive_def view_simps)
  have "lastPinchDist (events initial_view (take 3 ?es)) = Some 2"
    by (simp add: view_simps)
  with pinch_division_defined[OF h, of 3] show ?thesis by blast
qed

text \<open>
  The two pointers go down at distinct positions, then one is moved onto the other: the
  cached distance becomes 0, and the next move divides by it.
\<close>

theorem pinch_baseline_collapse_counterexample:
  "vals (pointers (events initial_view [PointerDown 1 0 0, PointerDown 2 1 0])) = [(0, 0), (1, 0)]
   \<and> lastPinchDist (events initial_view [PointerDown 1 0 0, PointerDown 2 1 0]) = Some 1
   \<and> lastPinchDist (events initial_view [PointerDown 1 0 0, PointerDown 2 1 0, PointerMove 2 0 0])
       = Some 0
   \<and> zoomVal (events initial_view
        [PointerDown 1 0 0, PointerDown 2 1 0, PointerMove 2 0 0, PointerMove 2 1 0])
       = NonFinite"
  by (simp add: view_simps)

end
